theory Spec2Isabelle
  imports Main "HOL-Library.Word"
begin

section \<open>Bytes, exceptions and the \<open>struct\<close> module\<close>

text \<open>
  The transaction codec of \<open>bitcoin/txn.py\<close>. A Python \<open>bytes\<close> value is a list of
  8-bit words, a Python \<open>int\<close> is an \<open>int\<close>, and a length, a count or the position
  counter \<open>rc\<close> (never negative) is a \<open>nat\<close>.
\<close>

type_synonym byte = "8 word"
type_synonym bytes = "byte list"

text \<open>
  The exceptions the codec can raise: \<open>struct.error\<close> (from \<open>pack\<close> and \<open>unpack\<close>),
  \<open>AssertionError\<close> (the two \<open>assert\<close> statements of \<open>disassemble\<close>),
  \<open>AttributeError\<close> (reading an attribute the object does not have yet), and the
  truncation error of the variable-length integer collaborator. \<open>TrailingDataError\<close>
  is the error kind the spec names for bytes left after the locktime; no statement of
  \<open>txn.py\<close> raises it, and no operation below returns it.
\<close>

datatype error =
  StructError | AssertionError | AttributeError | TruncatedInputError | TrailingDataError

definition ebind :: "error + 'a \<Rightarrow> ('a \<Rightarrow> error + 'b) \<Rightarrow> error + 'b" where
  "ebind m f = (case m of Inl e \<Rightarrow> Inl e | Inr x \<Rightarrow> f x)"

text \<open>Python's \<open>xs[a:b]\<close> for \<open>0 \<le> a \<le> b\<close>: never raises, shorter when \<open>xs\<close> is.\<close>

definition slice :: "nat \<Rightarrow> nat \<Rightarrow> 'a list \<Rightarrow> 'a list" where
  "slice a b xs = take (b - a) (drop a xs)"

text \<open>Little-endian reading and writing of unsigned integers.\<close>

primrec le_decode :: "bytes \<Rightarrow> nat" where
  "le_decode [] = 0"
| "le_decode (b # bs) = unat b + 256 * le_decode bs"

primrec le_encode :: "nat \<Rightarrow> nat \<Rightarrow> bytes" where
  "le_encode 0 n = []"
| "le_encode (Suc k) n = of_nat (n mod 256) # le_encode k (n div 256)"

text \<open>
  \<open>unpack('<L', b)[0]\<close> and \<open>unpack('<Q', b)[0]\<close>: \<open>struct.error\<close> unless \<open>b\<close> has
  exactly the width of the format (4 and 8 bytes).
\<close>

definition unpack_le :: "nat \<Rightarrow> bytes \<Rightarrow> error + int" where
  "unpack_le w b = (if length b = w then Inr (int (le_decode b)) else Inl StructError)"

text \<open>
  \<open>pack('<L', v)\<close> and \<open>pack('<Q', v)\<close>: \<open>struct.error\<close> unless
  \<open>0 \<le> v < 2 ^ (8 * width)\<close>.
\<close>

definition pack_le :: "nat \<Rightarrow> int \<Rightarrow> error + bytes" where
  "pack_le w v = (if 0 \<le> v \<and> v < 2 ^ (8 * w) then Inr (le_encode w (nat v)) else Inl StructError)"

section \<open>The variable-length integer collaborator\<close>

text \<open>
  Modelled from the spec: \<open>bitcoin/varlen.py\<close> (\<open>varlenDecode\<close>, \<open>varlenEncode\<close>) is
  not part of the sources at hand. The spec describes Bitcoin's CompactSize format, of
  1, 3, 5 or 9 bytes depending on magnitude: \<open>varlenDecode(buffer, positionCounter)\<close>
  decodes one integer from the front of the buffer, advances the position counter by
  the number of bytes consumed, and returns the value and the unconsumed remainder;
  a read past the end of the buffer is the spec's \<open>TruncatedInputError\<close>.
\<close>

definition varlenDecode :: "bytes \<Rightarrow> nat \<Rightarrow> error + (nat \<times> bytes \<times> nat)" where
  "varlenDecode b rc =
     (case b of
        [] \<Rightarrow> Inl TruncatedInputError
      | t # r \<Rightarrow>
          if t = 0xff then
            (if length r < 8 then Inl TruncatedInputError
             else Inr (le_decode (take 8 r), drop 8 r, rc + 9))
          else if t = 0xfe then
            (if length r < 4 then Inl TruncatedInputError
             else Inr (le_decode (take 4 r), drop 4 r, rc + 5))
          else if t = 0xfd then
            (if length r < 2 then Inl TruncatedInputError
             else Inr (le_decode (take 2 r), drop 2 r, rc + 3))
          else Inr (unat t, r, rc + 1))"

text \<open>
  Modelled from the spec: \<open>varlenEncode(value)\<close> of the absent \<open>bitcoin/varlen.py\<close>
  is the inverse operation, the minimal-length encoding by the CompactSize rules.
  A value of \<open>2 ^ 64\<close> or more has no 9-byte form; packing it is an error.
\<close>

definition varlenEncode :: "nat \<Rightarrow> error + bytes" where
  "varlenEncode n =
     (if n < 0xfd then Inr [of_nat n]
      else if n \<le> 0xffff then Inr (0xfd # le_encode 2 n)
      else if n \<le> 0xffffffff then Inr (0xfe # le_encode 4 n)
      else if n < 2 ^ 64 then Inr (0xff # le_encode 8 n)
      else Inl StructError)"

section \<open>The transaction object\<close>

type_synonym prevout = "bytes \<times> int"
type_synonym txin = "prevout \<times> bytes \<times> int"
type_synonym txout = "int \<times> bytes"

text \<open>
  A \<open>Txn\<close> object has the attributes that have been assigned so far: \<open>None\<close> is an
  attribute the object does not have (reading it raises \<open>AttributeError\<close>).
\<close>

record Txn =
  data :: "bytes option"
  txid :: "bytes option"
  version :: "int option"
  inputs :: "txin list option"
  outputs :: "txout list option"
  locktime :: "int option"

definition nullprev :: bytes where
  "nullprev = replicate 32 0"

text \<open>The object before \<open>__init__\<close> runs: no attribute at all.\<close>

definition Txn_blank :: Txn where
  "Txn_blank = \<lparr>data = None, txid = None, version = None, inputs = None,
                 outputs = None, locktime = None\<rparr>"

text \<open>
  \<open>idhash\<close>: \<open>self.txid = dblsha(self.data)\<close>. The double hash \<open>util.dblsha\<close> is
  not part of the sources at hand and the spec fixes no hash function, so it is a
  parameter of every operation that calls it.
\<close>

definition idhash :: "(bytes \<Rightarrow> bytes) \<Rightarrow> Txn \<Rightarrow> error + Txn" where
  "idhash dblsha self =
     (case data self of
        None \<Rightarrow> Inl AttributeError
      | Some d \<Rightarrow> Inr (self\<lparr>txid := Some (dblsha d)\<rparr>))"

text \<open>\<open>__init__(self, data=None)\<close>: \<open>if data:\<close> is false for \<open>None\<close> and for \<open>b''\<close>.\<close>

definition Txn_init :: "(bytes \<Rightarrow> bytes) \<Rightarrow> bytes option \<Rightarrow> error + Txn" where
  "Txn_init dblsha dat =
     (case dat of
        None \<Rightarrow> Inr Txn_blank
      | Some d \<Rightarrow>
          if d \<noteq> [] then idhash dblsha (Txn_blank\<lparr>data := Some d\<rparr>)
          else Inr Txn_blank)"

definition Txn_new :: "(bytes \<Rightarrow> bytes) \<Rightarrow> error + Txn" where
  "Txn_new dblsha =
     ebind (Txn_init dblsha None)
       (\<lambda>o1. Inr (o1\<lparr>version := Some 1, inputs := Some [], outputs := Some [],
                     locktime := Some 0\<rparr>))"

text \<open>
  \<open>setCoinbase(self, sigScript, seqno, height)\<close>. \<open>bitcoin.script.encodeUNum\<close> is not
  part of the sources at hand; it is a parameter.
\<close>

definition setCoinbase ::
  "(int \<Rightarrow> bytes) \<Rightarrow> bytes \<Rightarrow> int \<Rightarrow> int option \<Rightarrow> Txn \<Rightarrow> Txn" where
  "setCoinbase encodeUNum sigScript seqno height self =
     (let sigScript' = (case height of
                          None \<Rightarrow> sigScript
                        | Some h \<Rightarrow> encodeUNum h @ sigScript)
      in self\<lparr>inputs := Some [((nullprev, 0xffffffff), sigScript', seqno)]\<rparr>)"

text \<open>The loop over \<open>range(inputCount)\<close> of \<open>disassemble\<close>, with its locals.\<close>

fun disassemble_inputs ::
  "nat \<Rightarrow> bytes \<Rightarrow> nat \<Rightarrow> txin list \<Rightarrow> error + (txin list \<times> bytes \<times> nat)" where
  "disassemble_inputs 0 dat rc ins = Inr (ins, dat, rc)"
| "disassemble_inputs (Suc n) dat rc ins =
     (case unpack_le 4 (slice 32 36 dat) of
        Inl e \<Rightarrow> Inl e
      | Inr idx \<Rightarrow>
          (case varlenDecode (drop 36 dat) (rc + 36) of
             Inl e \<Rightarrow> Inl e
           | Inr (sigScriptLen, dat', rc') \<Rightarrow>
               (case unpack_le 4 (slice sigScriptLen (sigScriptLen + 4) dat') of
                  Inl e \<Rightarrow> Inl e
                | Inr seqno \<Rightarrow>
                    disassemble_inputs n (drop (sigScriptLen + 4) dat')
                      (rc' + (sigScriptLen + 4))
                      (ins @ [((take 32 dat, idx), take sigScriptLen dat', seqno)]))))"

text \<open>The loop over \<open>range(outputCount)\<close>.\<close>

fun disassemble_outputs ::
  "nat \<Rightarrow> bytes \<Rightarrow> nat \<Rightarrow> txout list \<Rightarrow> error + (txout list \<times> bytes \<times> nat)" where
  "disassemble_outputs 0 dat rc outs = Inr (outs, dat, rc)"
| "disassemble_outputs (Suc n) dat rc outs =
     (case unpack_le 8 (take 8 dat) of
        Inl e \<Rightarrow> Inl e
      | Inr amount \<Rightarrow>
          (case varlenDecode (drop 8 dat) (rc + 8) of
             Inl e \<Rightarrow> Inl e
           | Inr (pkScriptLen, dat', rc') \<Rightarrow>
               disassemble_outputs n (drop pkScriptLen dat') (rc' + pkScriptLen)
                 (outs @ [(amount, take pkScriptLen dat')])))"

text \<open>
  \<open>disassemble(self, retExtra)\<close>. An exception leaves the object as the assignments
  before it made it, so the object is returned beside the result also on failure.
  The result on success is the method's return value: \<open>None\<close>, or the trailing bytes.
\<close>

definition disassemble :: "bool \<Rightarrow> Txn \<Rightarrow> (error + bytes option) \<times> Txn" where
  "disassemble retExtra self =
     (case data self of
        None \<Rightarrow> (Inl AttributeError, self)
      | Some d \<Rightarrow>
     (case unpack_le 4 (take 4 d) of
        Inl e \<Rightarrow> (Inl e, self)
      | Inr v \<Rightarrow>
     let self1 = self\<lparr>version := Some v\<rparr> in
     (case varlenDecode (drop 4 d) 4 of
        Inl e \<Rightarrow> (Inl e, self1)
      | Inr (inputCount, dat1, rc1) \<Rightarrow>
     (case disassemble_inputs inputCount dat1 rc1 [] of
        Inl e \<Rightarrow> (Inl e, self1)
      | Inr (ins, dat2, rc2) \<Rightarrow>
     let self2 = self1\<lparr>inputs := Some ins\<rparr> in
     (case varlenDecode dat2 rc2 of
        Inl e \<Rightarrow> (Inl e, self2)
      | Inr (outputCount, dat3, rc3) \<Rightarrow>
     (case disassemble_outputs outputCount dat3 rc3 [] of
        Inl e \<Rightarrow> (Inl e, self2)
      | Inr (outs, dat4, rc4) \<Rightarrow>
     let self3 = self2\<lparr>outputs := Some outs\<rparr> in
     (case unpack_le 4 (take 4 dat4) of
        Inl e \<Rightarrow> (Inl e, self3)
      | Inr lt \<Rightarrow>
     let self4 = self3\<lparr>locktime := Some lt\<rparr> in
     if \<not> retExtra then
       (if length dat4 = 4 then (Inr None, self4) else (Inl AssertionError, self4))
     else
       (if dat4 = drop rc4 d
        then (Inr (Some (drop 4 dat4)), self4\<lparr>data := Some (take (rc4 + 4) d)\<rparr>)
        else (Inl AssertionError, self4)))))))))"

text \<open>
  \<open>isCoinbase\<close>: \<open>and\<close> evaluates \<open>self.inputs[0]\<close> only when the length is 1.
\<close>

definition isCoinbase :: "Txn \<Rightarrow> error + bool" where
  "isCoinbase self =
     (case inputs self of
        None \<Rightarrow> Inl AttributeError
      | Some ins \<Rightarrow>
          Inr (if length ins = 1 then fst (ins ! 0) = (nullprev, 0xffffffff) else False))"

text \<open>The two \<open>for\<close> statements of \<open>assemble\<close>, each appending to the local \<open>data\<close>.\<close>

fun assemble_inputs :: "txin list \<Rightarrow> bytes \<Rightarrow> error + bytes" where
  "assemble_inputs [] dat = Inr dat"
| "assemble_inputs ((prevout, sigScript, seqno) # r) dat =
     ebind (pack_le 4 (snd prevout)) (\<lambda>idx.
     ebind (varlenEncode (length sigScript)) (\<lambda>l.
     ebind (pack_le 4 seqno) (\<lambda>s.
       assemble_inputs r (dat @ (fst prevout @ idx) @ (l @ sigScript) @ s))))"

fun assemble_outputs :: "txout list \<Rightarrow> bytes \<Rightarrow> error + bytes" where
  "assemble_outputs [] dat = Inr dat"
| "assemble_outputs ((amount, pkScript) # r) dat =
     ebind (pack_le 8 amount) (\<lambda>a.
     ebind (varlenEncode (length pkScript)) (\<lambda>l.
       assemble_outputs r (dat @ a @ (l @ pkScript))))"

text \<open>Lines 121 to 136 of \<open>assemble\<close>: the bytes built in the local \<open>data\<close>.\<close>

definition assemble_data :: "Txn \<Rightarrow> error + bytes" where
  "assemble_data self =
     (case version self of None \<Rightarrow> Inl AttributeError | Some v \<Rightarrow>
      ebind (pack_le 4 v) (\<lambda>dat0.
      (case inputs self of None \<Rightarrow> Inl AttributeError | Some ins \<Rightarrow>
       ebind (varlenEncode (length ins)) (\<lambda>ic.
       ebind (assemble_inputs ins (dat0 @ ic)) (\<lambda>dat1.
       (case outputs self of None \<Rightarrow> Inl AttributeError | Some outs \<Rightarrow>
        ebind (varlenEncode (length outs)) (\<lambda>oc.
        ebind (assemble_outputs outs (dat1 @ oc)) (\<lambda>dat2.
        (case locktime self of None \<Rightarrow> Inl AttributeError | Some lt \<Rightarrow>
         ebind (pack_le 4 lt) (\<lambda>l. Inr (dat2 @ l)))))))))))"

text \<open>
  \<open>assemble\<close>: the object changes only in its last two statements, so a failure
  leaves it as it was.
\<close>

definition assemble :: "(bytes \<Rightarrow> bytes) \<Rightarrow> Txn \<Rightarrow> error + Txn" where
  "assemble dblsha self =
     ebind (assemble_data self) (\<lambda>dat. idhash dblsha (self\<lparr>data := Some dat\<rparr>))"

section \<open>Canonical serializations and truncated buffers\<close>





text \<open>
  The decode steps of the spec (section 4.1) as a reader that checks every
  fixed-width and length-prefixed read against the end of the buffer (section 7:
  a read that runs past the end is \<open>TruncatedInputError\<close>). It returns the bytes
  left after the locktime. A buffer is too short for a field it declares exactly
  when this reader fails.
\<close>

definition read_bytes :: "nat \<Rightarrow> bytes \<Rightarrow> error + bytes" where
  "read_bytes n b = (if length b < n then Inl TruncatedInputError else Inr (drop n b))"

definition read_varint :: "bytes \<Rightarrow> error + (nat \<times> bytes)" where
  "read_varint b =
     (case varlenDecode b 0 of Inl e \<Rightarrow> Inl e | Inr (v, r, k) \<Rightarrow> Inr (v, r))"

fun checked_inputs :: "nat \<Rightarrow> bytes \<Rightarrow> error + bytes" where
  "checked_inputs 0 b = Inr b"
| "checked_inputs (Suc n) b =
     ebind (read_bytes 32 b) (\<lambda>b1.
     ebind (read_bytes 4 b1) (\<lambda>b2.
     ebind (read_varint b2) (\<lambda>(l, b3).
     ebind (read_bytes l b3) (\<lambda>b4.
     ebind (read_bytes 4 b4) (\<lambda>b5. checked_inputs n b5)))))"

fun checked_outputs :: "nat \<Rightarrow> bytes \<Rightarrow> error + bytes" where
  "checked_outputs 0 b = Inr b"
| "checked_outputs (Suc n) b =
     ebind (read_bytes 8 b) (\<lambda>b1.
     ebind (read_varint b1) (\<lambda>(l, b2).
     ebind (read_bytes l b2) (\<lambda>b3. checked_outputs n b3)))"

definition checked_decode :: "bytes \<Rightarrow> error + bytes" where
  "checked_decode b =
     ebind (read_bytes 4 b) (\<lambda>b1.
     ebind (read_varint b1) (\<lambda>(ic, b2).
     ebind (checked_inputs ic b2) (\<lambda>b3.
     ebind (read_varint b3) (\<lambda>(oc, b4).
     ebind (checked_outputs oc b4) (\<lambda>b5. read_bytes 4 b5)))))"

text \<open>
  A digest function for the closed examples below, which need some function in the
  place of \<open>dblsha\<close>; every general result holds for any digest function.
\<close>

definition example_digest :: "bytes \<Rightarrow> bytes" where
  "example_digest b = take 32 (rev b @ replicate 32 0)"

text \<open>The object \<open>Txn(B)\<close> for a non-empty \<open>B\<close>, with that digest function.\<close>

definition example_txn :: "bytes \<Rightarrow> Txn" where
  "example_txn B = \<lparr>data = Some B, txid = Some (example_digest B), version = None,
                        inputs = None, outputs = None, locktime = None\<rparr>"



section \<open>Integers on the wire\<close>

lemma le_encode_numeral:
  "le_encode (numeral k) n = of_nat (n mod 256) # le_encode (pred_numeral k) (n div 256)"
  using le_encode.simps(2) [of "pred_numeral k" n] by (simp only: numeral_eq_Suc [of k])

lemma length_le_encode [simp]: "length (le_encode k n) = k"
  by (induction k arbitrary: n) auto









section \<open>Construction\<close>

text \<open>
  C10. Constructing a transaction from the empty byte sequence is the same as
  constructing it with no data: the object gets no raw-bytes cache and no identity
  hash (and no other attribute).
\<close>

theorem init_empty_is_init_none:
  "Txn_init dblsha (Some []) = Txn_init dblsha None \<and>
   Txn_init dblsha (Some []) =
     Inr \<lparr>data = None, txid = None, version = None, inputs = None, outputs = None,
          locktime = None\<rparr>"
  by (simp add: Txn_init_def Txn_blank_def)

text \<open>
  C9. \<open>Txn.new()\<close> returns a transaction with version 1, no inputs, no outputs,
  locktime 0 and no cached raw bytes, and \<open>assemble\<close> on it stores exactly the ten
  bytes 01 00 00 00 00 00 00 00 00 00 (and their digest).
\<close>

theorem new_and_assemble:
  "Txn_new dblsha =
     Inr \<lparr>data = None, txid = None, version = Some 1, inputs = Some [],
          outputs = Some [], locktime = Some 0\<rparr> \<and>
   assemble dblsha \<lparr>data = None, txid = None, version = Some 1, inputs = Some [],
                    outputs = Some [], locktime = Some 0\<rparr> =
     Inr \<lparr>data = Some [1, 0, 0, 0, 0, 0, 0, 0, 0, 0],
          txid = Some (dblsha [1, 0, 0, 0, 0, 0, 0, 0, 0, 0]),
          version = Some 1, inputs = Some [], outputs = Some [], locktime = Some 0\<rparr>"
  by (simp add: Txn_new_def Txn_init_def Txn_blank_def ebind_def assemble_def
      assemble_data_def pack_le_def varlenEncode_def idhash_def le_encode_numeral)

section \<open>The identity hash\<close>

lemma disassemble_txid: "txid (snd (disassemble r t)) = txid t"
  by (simp add: disassemble_def Let_def split: option.splits sum.splits prod.splits)

lemma init_nonempty:
  "Txn_init dblsha (Some (b # bs)) =
     Inr \<lparr>data = Some (b # bs), txid = Some (dblsha (b # bs)), version = None,
          inputs = None, outputs = None, locktime = None\<rparr>"
  by (simp add: Txn_init_def Txn_blank_def idhash_def)

lemma example_txn_init: "Txn_init example_digest (Some (b # bs)) = Inr (example_txn (b # bs))"
  by (simp add: init_nonempty example_txn_def)

text \<open>
  C2. For every non-empty byte sequence \<open>b # bs\<close>, the constructor stores the bytes
  and sets the identity hash to their double hash, and \<open>disassemble\<close> (with or without
  \<open>retExtra\<close>, whether it succeeds or raises) leaves the identity hash as it is.
\<close>

theorem init_hash_stable:
  "\<exists>t. Txn_init dblsha (Some (b # bs)) = Inr t \<and>
       data t = Some (b # bs) \<and>
       txid t = Some (dblsha (b # bs)) \<and>
       txid (snd (disassemble retExtra t)) = Some (dblsha (b # bs))"
  by (simp add: init_nonempty disassemble_txid)

text \<open>
  C3. The identity hash is meant to be the double hash of the raw-bytes cache, and
  \<open>__init__\<close> and \<open>assemble\<close> call \<open>idhash\<close> right after they assign \<open>self.data\<close>.
  The \<open>retExtra\<close> path of \<open>disassemble\<close> assigns \<open>self.data\<close> without it: on the
  11 bytes 01 00 00 00 00 00 00 00 00 00 ff the cache becomes the first 10 bytes
  while the identity hash stays the double hash of all 11.
\<close>

theorem retExtra_keeps_stale_hash:
  "\<exists>t t'. Txn_init dblsha (Some [1, 0, 0, 0, 0, 0, 0, 0, 0, 0, 255]) = Inr t \<and>
          txid t = Some (dblsha [1, 0, 0, 0, 0, 0, 0, 0, 0, 0, 255]) \<and>
          disassemble True t = (Inr (Some [255]), t') \<and>
          data t' = Some [1, 0, 0, 0, 0, 0, 0, 0, 0, 0] \<and>
          txid t' = Some (dblsha [1, 0, 0, 0, 0, 0, 0, 0, 0, 0, 255])"
  by (simp add: init_nonempty disassemble_def unpack_le_def varlenDecode_def)

section \<open>Coinbase inputs\<close>

text \<open>
  C7. \<open>isCoinbase\<close> returns true exactly when the input sequence is one input whose
  previous output is the null sentinel (32 zero bytes, index 0xFFFFFFFF), and it
  returns false for every other input sequence.
\<close>

theorem isCoinbase_iff:
  "(isCoinbase t = Inr True \<longleftrightarrow>
      (\<exists>s q. inputs t = Some [((replicate 32 0, 0xffffffff), s, q)])) \<and>
   (\<forall>ins. inputs t = Some ins \<longrightarrow>
      isCoinbase t = Inr (\<exists>s q. ins = [((replicate 32 0, 0xffffffff), s, q)]))"
proof -
  have "(if length ins = 1 then fst (ins ! 0) = p else False) \<longleftrightarrow> (\<exists>s q. ins = [(p, s, q)])"
    for ins :: "txin list" and p
    by (cases ins) auto
  then show ?thesis
    by (auto simp: isCoinbase_def nullprev_def split: option.splits)
qed

theorem isCoinbase_iff_witness:
  "inputs (Txn_blank\<lparr>inputs := Some [((replicate 32 0, 0xffffffff), [1, 2], 7)]\<rparr>) =
     Some [((replicate 32 0, 0xffffffff), [1, 2], 7)] \<and>
   isCoinbase (Txn_blank\<lparr>inputs := Some [((replicate 32 0, 0xffffffff), [1, 2], 7)]\<rparr>) =
     Inr True"
  using isCoinbase_iff [of "Txn_blank\<lparr>inputs := Some [((replicate 32 0, 0xffffffff), [1, 2], 7)]\<rparr>"]
  by simp

text \<open>
  C8. \<open>setCoinbase(S, seqno, height=H)\<close> replaces the input sequence by one input
  with the null sentinel as previous output and the script \<open>encodeUNum(H) + S\<close>;
  without a height the script is \<open>S\<close>.
\<close>

theorem setCoinbase_inputs:
  "setCoinbase encodeUNum S seqno (Some H) t =
     t\<lparr>inputs := Some [((replicate 32 0, 0xffffffff), encodeUNum H @ S, seqno)]\<rparr> \<and>
   setCoinbase encodeUNum S seqno None t =
     t\<lparr>inputs := Some [((replicate 32 0, 0xffffffff), S, seqno)]\<rparr>"
  by (simp add: setCoinbase_def nullprev_def)

section \<open>Failures of \<open>disassemble\<close>\<close>

text \<open>
  C5, as the code has it. \<open>disassemble\<close> assigns \<open>version\<close>, \<open>inputs\<close>, \<open>outputs\<close>
  and \<open>locktime\<close> in this order, each as soon as it is decoded. When it raises, the
  raw-bytes cache and the identity hash are unchanged, the fields assigned before
  the failure hold new values and the others are as before the call.
\<close>

theorem disassemble_failure_state:
  assumes "disassemble retExtra t = (Inl e, t')"
  shows "data t' = data t \<and> txid t' = txid t \<and>
         (\<exists>v ins outs lt.
            t' = t \<or>
            t' = t\<lparr>version := Some v\<rparr> \<or>
            t' = t\<lparr>version := Some v, inputs := Some ins\<rparr> \<or>
            t' = t\<lparr>version := Some v, inputs := Some ins, outputs := Some outs\<rparr> \<or>
            t' = t\<lparr>version := Some v, inputs := Some ins, outputs := Some outs,
                   locktime := Some lt\<rparr>)"
  using assms
  apply (simp add: disassemble_def Let_def split: option.splits sum.splits prod.splits if_splits)
  apply auto
  done

theorem disassemble_failure_state_witness:
  "disassemble False (example_txn [1, 0, 0, 0]) =
     (Inl TruncatedInputError, (example_txn [1, 0, 0, 0])\<lparr>version := Some 1\<rparr>) \<and>
   data ((example_txn [1, 0, 0, 0])\<lparr>version := Some 1\<rparr>) = data (example_txn [1, 0, 0, 0]) \<and>
   txid ((example_txn [1, 0, 0, 0])\<lparr>version := Some 1\<rparr>) = txid (example_txn [1, 0, 0, 0])"
proof -
  have h: "disassemble False (example_txn [1, 0, 0, 0]) =
     (Inl TruncatedInputError, (example_txn [1, 0, 0, 0])\<lparr>version := Some 1\<rparr>)"
    by (simp add: example_txn_def disassemble_def unpack_le_def varlenDecode_def)
  show ?thesis
    using h disassemble_failure_state [OF h] by simp
qed

text \<open>
  The claim C5 as stated fails on the four bytes 01 00 00 00: the decode raises
  after it has assigned \<open>version\<close>, which the object did not have before, and
  before it has assigned any other field.
\<close>

theorem partial_state_counterexample:
  "fst (disassemble False (example_txn [1, 0, 0, 0])) = Inl TruncatedInputError \<and>
   version (example_txn [1, 0, 0, 0]) = None \<and>
   version (snd (disassemble False (example_txn [1, 0, 0, 0]))) = Some 1 \<and>
   inputs (snd (disassemble False (example_txn [1, 0, 0, 0]))) = None \<and>
   outputs (snd (disassemble False (example_txn [1, 0, 0, 0]))) = None \<and>
   locktime (snd (disassemble False (example_txn [1, 0, 0, 0]))) = None"
  by (simp add: example_txn_def disassemble_def unpack_le_def varlenDecode_def)

section \<open>Encoding after decoding\<close>






section \<open>The decoder against the bounds-checked reader\<close>

lemma read_varint_Inl:
  "read_varint b = Inl e \<Longrightarrow> varlenDecode b rc = Inl TruncatedInputError"
  by (auto simp: read_varint_def varlenDecode_def split: list.splits if_splits)

lemma read_varint_Inr:
  "read_varint b = Inr (v, r) \<Longrightarrow> \<exists>rc'. varlenDecode b rc = Inr (v, r, rc')"
  by (auto simp: read_varint_def varlenDecode_def split: list.splits if_splits)

lemma read_bytes_Inr: "read_bytes n b = Inr r \<longleftrightarrow> n \<le> length b \<and> r = drop n b"
  by (auto simp: read_bytes_def)

lemma read_bytes_Inl: "read_bytes n b = Inl e \<longleftrightarrow> length b < n \<and> e = TruncatedInputError"
  by (auto simp: read_bytes_def)

lemma unpack_le_ok: "length b = w \<Longrightarrow> \<exists>v. unpack_le w b = Inr v"
  by (simp add: unpack_le_def)

lemma unpack_le_short: "length b \<noteq> w \<Longrightarrow> unpack_le w b = Inl StructError"
  by (simp add: unpack_le_def)

lemma ebind_Inr: "ebind m f = Inr y \<longleftrightarrow> (\<exists>x. m = Inr x \<and> f x = Inr y)"
  by (cases m) (simp_all add: ebind_def)

lemma ebind_Inl: "ebind m f = Inl e \<longleftrightarrow> m = Inl e \<or> (\<exists>x. m = Inr x \<and> f x = Inl e)"
  by (cases m) (simp_all add: ebind_def)

subsection \<open>Complete transactions\<close>

lemma read_varint_consumed:
  "read_varint b = Inr (v, r) \<Longrightarrow>
   \<exists>k. k \<le> length b \<and> r = drop k b \<and> varlenDecode b rc = Inr (v, r, rc + k)"
proof -
  assume a: "read_varint b = Inr (v, r)"
  then obtain t r0 where b: "b = t # r0"
    by (cases b) (auto simp: read_varint_def varlenDecode_def)
  consider (x9) "t = 0xff" "8 \<le> length r0" | (x5) "t \<noteq> 0xff" "t = 0xfe" "4 \<le> length r0"
    | (x3) "t \<noteq> 0xff" "t \<noteq> 0xfe" "t = 0xfd" "2 \<le> length r0"
    | (x1) "t \<noteq> 0xff" "t \<noteq> 0xfe" "t \<noteq> 0xfd"
    using a unfolding b by (auto simp: read_varint_def varlenDecode_def split: if_splits)
  then show ?thesis
  proof cases
    case x9
    with a b have "9 \<le> length b \<and> r = drop 9 b \<and> varlenDecode b rc = Inr (v, r, rc + 9)"
      by (auto simp: read_varint_def varlenDecode_def)
    then show ?thesis by blast
  next
    case x5
    with a b have "5 \<le> length b \<and> r = drop 5 b \<and> varlenDecode b rc = Inr (v, r, rc + 5)"
      by (auto simp: read_varint_def varlenDecode_def)
    then show ?thesis by blast
  next
    case x3
    with a b have "3 \<le> length b \<and> r = drop 3 b \<and> varlenDecode b rc = Inr (v, r, rc + 3)"
      by (auto simp: read_varint_def varlenDecode_def)
    then show ?thesis by blast
  next
    case x1
    with a b have "1 \<le> length b \<and> r = drop 1 b \<and> varlenDecode b rc = Inr (v, r, rc + 1)"
      by (auto simp: read_varint_def varlenDecode_def)
    then show ?thesis by blast
  qed
qed

lemma inputs_consumed:
  "checked_inputs n b = Inr rest \<Longrightarrow>
   \<exists>ins k. k \<le> length b \<and> rest = drop k b \<and>
           disassemble_inputs n b rc acc = Inr (ins, rest, rc + k)"
proof (induction n arbitrary: b rc acc)
  case 0
  then have "0 \<le> length b \<and> rest = drop 0 b \<and>
             disassemble_inputs 0 b rc acc = Inr (acc, rest, rc + 0)"
    by simp
  then show ?case by blast
next
  case (Suc n)
  from Suc.prems obtain l b3 where
    len: "32 \<le> length b" "4 \<le> length (drop 32 b)" and
    vi: "read_varint (drop 4 (drop 32 b)) = Inr (l, b3)" and
    len3: "l \<le> length b3" "4 \<le> length (drop l b3)" and
    rec: "checked_inputs n (drop 4 (drop l b3)) = Inr rest"
    by (auto simp: ebind_Inr read_bytes_Inr)
  from len have "length (slice 32 36 b) = 4"
    by (simp add: slice_def)
  then obtain idx where idx: "unpack_le 4 (slice 32 36 b) = Inr idx"
    using unpack_le_ok by blast
  have d36: "drop 4 (drop 32 b) = drop 36 b"
    by simp
  from read_varint_consumed [OF vi [unfolded d36], of "rc + 36"] obtain k1 where
    k1: "k1 \<le> length (drop 36 b)" "b3 = drop k1 (drop 36 b)" and
    vd: "varlenDecode (drop 36 b) (rc + 36) = Inr (l, b3, rc + 36 + k1)"
    by blast
  from len3 have "length (slice l (l + 4) b3) = 4"
    by (simp add: slice_def)
  then obtain q where q: "unpack_le 4 (slice l (l + 4) b3) = Inr q"
    using unpack_le_ok by blast
  have d: "drop (l + 4) b3 = drop 4 (drop l b3)"
    by (simp add: add.commute)
  from Suc.IH [OF rec, of "rc + 36 + k1 + (l + 4)"
      "acc @ [((take 32 b, idx), take l b3, q)]"]
  obtain ins k' where
    k': "k' \<le> length (drop 4 (drop l b3))" "rest = drop k' (drop 4 (drop l b3))" and
    di: "disassemble_inputs n (drop 4 (drop l b3)) (rc + 36 + k1 + (l + 4))
           (acc @ [((take 32 b, idx), take l b3, q)]) =
         Inr (ins, rest, rc + 36 + k1 + (l + 4) + k')"
    by blast
  let ?k = "36 + k1 + (l + 4) + k'"
  have "?k \<le> length b"
    using k1(1) k'(1) len3 len unfolding k1(2) by simp
  moreover have "rest = drop ?k b"
    unfolding k'(2) k1(2) by (simp add: add.commute add.left_commute)
  moreover have "disassemble_inputs (Suc n) b rc acc = Inr (ins, rest, rc + ?k)"
    using di by (simp add: idx vd q d add.assoc)
  ultimately show ?case by blast
qed

lemma outputs_consumed:
  "checked_outputs n b = Inr rest \<Longrightarrow>
   \<exists>outs k. k \<le> length b \<and> rest = drop k b \<and>
            disassemble_outputs n b rc acc = Inr (outs, rest, rc + k)"
proof (induction n arbitrary: b rc acc)
  case 0
  then have "0 \<le> length b \<and> rest = drop 0 b \<and>
             disassemble_outputs 0 b rc acc = Inr (acc, rest, rc + 0)"
    by simp
  then show ?case by blast
next
  case (Suc n)
  from Suc.prems obtain l b2 where
    len: "8 \<le> length b" and
    vi: "read_varint (drop 8 b) = Inr (l, b2)" and
    len2: "l \<le> length b2" and
    rec: "checked_outputs n (drop l b2) = Inr rest"
    by (auto simp: ebind_Inr read_bytes_Inr)
  from len have "length (take 8 b) = 8"
    by simp
  then obtain a where a: "unpack_le 8 (take 8 b) = Inr a"
    using unpack_le_ok by blast
  from read_varint_consumed [OF vi, of "rc + 8"] obtain k1 where
    k1: "k1 \<le> length (drop 8 b)" "b2 = drop k1 (drop 8 b)" and
    vd: "varlenDecode (drop 8 b) (rc + 8) = Inr (l, b2, rc + 8 + k1)"
    by blast
  from Suc.IH [OF rec, of "rc + 8 + k1 + l" "acc @ [(a, take l b2)]"]
  obtain outs k' where
    k': "k' \<le> length (drop l b2)" "rest = drop k' (drop l b2)" and
    di: "disassemble_outputs n (drop l b2) (rc + 8 + k1 + l) (acc @ [(a, take l b2)]) =
         Inr (outs, rest, rc + 8 + k1 + l + k')"
    by blast
  let ?k = "8 + k1 + l + k'"
  have "?k \<le> length b"
    using k1(1) k'(1) len2 len unfolding k1(2) by simp
  moreover have "rest = drop ?k b"
    unfolding k'(2) k1(2) by (simp add: add.commute add.left_commute)
  moreover have "disassemble_outputs (Suc n) b rc acc = Inr (outs, rest, rc + ?k)"
    using di by (simp add: a vd add.assoc)
  ultimately show ?case by blast
qed

lemma decode_complete:
  assumes t: "data t = Some B" and c: "checked_decode B = Inr extra"
  shows "\<exists>v ins outs lt.
           disassemble True t =
             (Inr (Some extra),
              t\<lparr>version := Some v, inputs := Some ins, outputs := Some outs,
                locktime := Some lt, data := Some (take (length B - length extra) B)\<rparr>) \<and>
           disassemble False t =
             (if extra = [] then Inr None else Inl AssertionError,
              t\<lparr>version := Some v, inputs := Some ins, outputs := Some outs,
                locktime := Some lt\<rparr>)"
proof -
  from c obtain ic b2 b3 oc b4 b5 where
    len: "4 \<le> length B" and
    rv1: "read_varint (drop 4 B) = Inr (ic, b2)" and
    ci: "checked_inputs ic b2 = Inr b3" and
    rv2: "read_varint b3 = Inr (oc, b4)" and
    co: "checked_outputs oc b4 = Inr b5" and
    len5: "4 \<le> length b5" and extra: "extra = drop 4 b5"
    by (auto simp: checked_decode_def ebind_Inr read_bytes_Inr)
  from len obtain v where v: "unpack_le 4 (take 4 B) = Inr v"
    using unpack_le_ok [of "take 4 B" 4] by auto
  from read_varint_consumed [OF rv1, of 4] obtain k1 where
    k1: "k1 \<le> length (drop 4 B)" "b2 = drop k1 (drop 4 B)" and
    vd1: "varlenDecode (drop 4 B) 4 = Inr (ic, b2, 4 + k1)"
    by blast
  from inputs_consumed [OF ci, of "4 + k1" "[]"] obtain ins k2 where
    k2: "k2 \<le> length b2" "b3 = drop k2 b2" and
    di: "disassemble_inputs ic b2 (4 + k1) [] = Inr (ins, b3, 4 + k1 + k2)"
    by blast
  from read_varint_consumed [OF rv2, of "4 + k1 + k2"] obtain k3 where
    k3: "k3 \<le> length b3" "b4 = drop k3 b3" and
    vd2: "varlenDecode b3 (4 + k1 + k2) = Inr (oc, b4, 4 + k1 + k2 + k3)"
    by blast
  from outputs_consumed [OF co, of "4 + k1 + k2 + k3" "[]"] obtain outs k4 where
    k4: "k4 \<le> length b4" "b5 = drop k4 b4" and
    do: "disassemble_outputs oc b4 (4 + k1 + k2 + k3) [] =
           Inr (outs, b5, 4 + k1 + k2 + k3 + k4)"
    by blast
  from len5 obtain lt where lt: "unpack_le 4 (take 4 b5) = Inr lt"
    using unpack_le_ok [of "take 4 b5" 4] by auto
  let ?rc = "4 + k1 + k2 + k3 + k4"
  have b5: "b5 = drop ?rc B"
    unfolding k4(2) k3(2) k2(2) k1(2) by (simp add: add.commute add.left_commute)
  have rc: "?rc + 4 \<le> length B"
    using len5 unfolding b5 by simp
  have l5: "length b5 = 4 \<longleftrightarrow> extra = []"
    using len5 by (auto simp: extra)
  have "length extra = length B - (?rc + 4)"
    unfolding extra b5 by simp
  with rc have tk: "length B - length extra = ?rc + 4"
    by simp
  have "disassemble True t =
          (Inr (Some extra),
           t\<lparr>version := Some v, inputs := Some ins, outputs := Some outs,
             locktime := Some lt, data := Some (take (length B - length extra) B)\<rparr>)"
    unfolding tk by (simp add: disassemble_def t v vd1 di vd2 do lt extra b5 [symmetric])
  moreover have "disassemble False t =
          (if extra = [] then Inr None else Inl AssertionError,
           t\<lparr>version := Some v, inputs := Some ins, outputs := Some outs,
             locktime := Some lt\<rparr>)"
    by (simp add: disassemble_def t v vd1 di vd2 do lt l5)
  ultimately show ?thesis by blast
qed

text \<open>
  C4, as the code has it. When the buffer holds a complete transaction (every read
  of the layout stays within the buffer) and one or more bytes are left after the
  locktime, the decode that does not opt into trailing data fails at its statement
  \<open>assert len(data) == 4\<close>: the exception is Python's \<open>AssertionError\<close>, the same
  as for the other assertion of the method, and not a \<open>TrailingDataError\<close> of its
  own. The decode that tolerates trailing data returns exactly those bytes.
\<close>

theorem trailing_data_rejected:
  assumes "data t = Some B" and "checked_decode B = Inr extra" and "extra \<noteq> []"
  shows "fst (disassemble False t) = Inl AssertionError \<and>
         fst (disassemble True t) = Inr (Some extra)"
  using decode_complete [OF assms(1,2)] assms(3) by auto

theorem trailing_data_rejected_witness:
  "data (example_txn [1, 0, 0, 0, 0, 0, 0, 0, 0, 0, 255]) =
     Some [1, 0, 0, 0, 0, 0, 0, 0, 0, 0, 255] \<and>
   checked_decode [1, 0, 0, 0, 0, 0, 0, 0, 0, 0, 255] = Inr [255] \<and>
   fst (disassemble False (example_txn [1, 0, 0, 0, 0, 0, 0, 0, 0, 0, 255])) =
     Inl AssertionError \<and>
   fst (disassemble True (example_txn [1, 0, 0, 0, 0, 0, 0, 0, 0, 0, 255])) =
     Inr (Some [255])"
proof -
  have d: "data (example_txn [1, 0, 0, 0, 0, 0, 0, 0, 0, 0, 255]) =
             Some [1, 0, 0, 0, 0, 0, 0, 0, 0, 0, 255]"
    by (simp add: example_txn_def)
  have c: "checked_decode [1, 0, 0, 0, 0, 0, 0, 0, 0, 0, 255] = Inr [255]"
    by (simp add: checked_decode_def ebind_def read_bytes_def read_varint_def varlenDecode_def)
  have n: "[255 :: byte] \<noteq> []"
    by simp
  from d c trailing_data_rejected [OF d c n] show ?thesis
    by simp
qed

text \<open>
  The claim C4 as stated fails on the eleven bytes 01 00 00 00 00 00 00 00 00 00 ff,
  an empty transaction followed by one byte: the decode does fail, but with the
  \<open>AssertionError\<close> of the \<open>assert\<close> statement, not with a \<open>TrailingDataError\<close>.
\<close>

theorem trailing_data_error_counterexample:
  "checked_decode [1, 0, 0, 0, 0, 0, 0, 0, 0, 0, 255] = Inr [255] \<and>
   fst (disassemble False (example_txn [1, 0, 0, 0, 0, 0, 0, 0, 0, 0, 255])) =
     Inl AssertionError \<and>
   fst (disassemble False (example_txn [1, 0, 0, 0, 0, 0, 0, 0, 0, 0, 255])) \<noteq>
     Inl TrailingDataError"
  by (simp add: checked_decode_def ebind_def read_bytes_def read_varint_def
      example_txn_def disassemble_def unpack_le_def varlenDecode_def)

subsection \<open>Short reads\<close>

lemma decode_sim_ok:
  assumes t: "data t = Some B" and c: "checked_decode B = Inr rest"
  shows "fst (disassemble r t) = Inl AssertionError \<or> (\<exists>x. fst (disassemble r t) = Inr x)"
  using decode_complete [OF assms] by (cases r) auto

lemma inputs_sim_fail:
  "checked_inputs n b = Inl e \<Longrightarrow>
   disassemble_inputs n b rc acc = Inl StructError \<or>
   disassemble_inputs n b rc acc = Inl TruncatedInputError"
proof (induction n arbitrary: b rc acc)
  case 0
  then show ?case by simp
next
  case (Suc n)
  show ?case
  proof (cases "length b < 36")
    case True
    then have "length (slice 32 36 b) \<noteq> 4"
      by (simp add: slice_def)
    then show ?thesis
      by (simp add: unpack_le_short)
  next
    case False
    then have "length (slice 32 36 b) = 4"
      by (simp add: slice_def)
    then obtain idx where idx: "unpack_le 4 (slice 32 36 b) = Inr idx"
      using unpack_le_ok by blast
    have d36: "drop 4 (drop 32 b) = drop 36 b"
      by simp
    show ?thesis
    proof (cases "read_varint (drop 36 b)")
      case (Inl e')
      from read_varint_Inl [OF Inl] show ?thesis
        by (simp add: idx)
    next
      case (Inr p)
      obtain l b3 where p: "p = (l, b3)"
        by (cases p)
      from read_varint_Inr [OF Inr [unfolded p]] obtain rc' where
        vd: "varlenDecode (drop 36 b) (rc + 36) = Inr (l, b3, rc')"
        by blast
      show ?thesis
      proof (cases "length b3 < l + 4")
        case True
        then have "length (slice l (l + 4) b3) \<noteq> 4"
          by (simp add: slice_def)
        then show ?thesis
          by (simp add: idx vd unpack_le_short)
      next
        case short: False
        then have "length (slice l (l + 4) b3) = 4"
          by (simp add: slice_def)
        then obtain q where q: "unpack_le 4 (slice l (l + 4) b3) = Inr q"
          using unpack_le_ok by blast
        have d: "drop (l + 4) b3 = drop 4 (drop l b3)"
          by (simp add: add.commute)
        from Suc.prems False short Inr p
        have "checked_inputs n (drop 4 (drop l b3)) = Inl e"
          by (auto simp: ebind_Inl read_bytes_Inl read_bytes_Inr d36)
        from Suc.IH [OF this] show ?thesis
          by (simp add: idx vd q d)
      qed
    qed
  qed
qed

lemma outputs_empty:
  "disassemble_outputs n [] rc acc = Inl StructError \<or>
   disassemble_outputs n [] rc acc = Inr (acc, [], rc)"
  by (cases n) (simp_all add: unpack_le_def)

lemma outputs_sim_fail:
  "checked_outputs n b = Inl e \<Longrightarrow>
   disassemble_outputs n b rc acc = Inl StructError \<or>
   disassemble_outputs n b rc acc = Inl TruncatedInputError \<or>
   (\<exists>outs rc'. disassemble_outputs n b rc acc = Inr (outs, [], rc'))"
proof (induction n arbitrary: b rc acc)
  case 0
  then show ?case by simp
next
  case (Suc n)
  show ?case
  proof (cases "length b < 8")
    case True
    then have "length (take 8 b) \<noteq> 8"
      by simp
    then show ?thesis
      by (simp add: unpack_le_short)
  next
    case False
    then have "length (take 8 b) = 8"
      by simp
    then obtain a where a: "unpack_le 8 (take 8 b) = Inr a"
      using unpack_le_ok by blast
    show ?thesis
    proof (cases "read_varint (drop 8 b)")
      case (Inl e')
      from read_varint_Inl [OF Inl] show ?thesis
        by (simp add: a)
    next
      case (Inr p)
      obtain l b2 where p: "p = (l, b2)"
        by (cases p)
      from read_varint_Inr [OF Inr [unfolded p]] obtain rc' where
        vd: "varlenDecode (drop 8 b) (rc + 8) = Inr (l, b2, rc')"
        by blast
      show ?thesis
      proof (cases "length b2 < l")
        case True
        then have "drop l b2 = []"
          by simp
        then show ?thesis
          using outputs_empty [of n "rc' + l" "acc @ [(a, take l b2)]"]
          by (auto simp: a vd)
      next
        case short: False
        from Suc.prems False short Inr p
        have "checked_outputs n (drop l b2) = Inl e"
          by (auto simp: ebind_Inl read_bytes_Inl read_bytes_Inr)
        from Suc.IH [OF this] show ?thesis
          by (simp add: a vd)
      qed
    qed
  qed
qed

lemma decode_sim_fail:
  assumes t: "data t = Some B" and c: "checked_decode B = Inl e"
  shows "fst (disassemble r t) = Inl StructError \<or>
         fst (disassemble r t) = Inl TruncatedInputError"
proof (cases "length B < 4")
  case True
  then have "unpack_le 4 (take 4 B) = Inl StructError"
    by (simp add: unpack_le_short)
  then show ?thesis
    by (simp add: disassemble_def t)
next
  case len: False
  then obtain v where v: "unpack_le 4 (take 4 B) = Inr v"
    using unpack_le_ok [of "take 4 B" 4] by auto
  show ?thesis
  proof (cases "read_varint (drop 4 B)")
    case (Inl e')
    from read_varint_Inl [OF Inl] show ?thesis
      by (simp add: disassemble_def t v)
  next
    case (Inr p)
    obtain ic b2 where p: "p = (ic, b2)"
      by (cases p)
    from read_varint_Inr [OF Inr [unfolded p]] obtain rc1 where
      vd1: "varlenDecode (drop 4 B) 4 = Inr (ic, b2, rc1)"
      by blast
    show ?thesis
    proof (cases "checked_inputs ic b2")
      case (Inl e')
      from inputs_sim_fail [OF Inl, of rc1 "[]"] show ?thesis
        by (auto simp: disassemble_def t v vd1)
    next
      case ci: (Inr b3)
      from inputs_consumed [OF ci, of rc1 "[]"] obtain ins rc2 where
        di: "disassemble_inputs ic b2 rc1 [] = Inr (ins, b3, rc2)"
        by blast
      show ?thesis
      proof (cases "read_varint b3")
        case (Inl e')
        from read_varint_Inl [OF Inl] show ?thesis
          by (simp add: disassemble_def t v vd1 di)
      next
        case rv: (Inr p')
        obtain oc b4 where p': "p' = (oc, b4)"
          by (cases p')
        from read_varint_Inr [OF rv [unfolded p']] obtain rc3 where
          vd2: "varlenDecode b3 rc2 = Inr (oc, b4, rc3)"
          by blast
        show ?thesis
        proof (cases "checked_outputs oc b4")
          case (Inl e')
          from outputs_sim_fail [OF Inl, of rc3 "[]"] show ?thesis
            by (auto simp: disassemble_def t v vd1 di vd2 unpack_le_def)
        next
          case co: (Inr b5)
          from outputs_consumed [OF co, of rc3 "[]"] obtain outs rc4 where
            do: "disassemble_outputs oc b4 rc3 [] = Inr (outs, b5, rc4)"
            by blast
          from c len Inr p ci rv p' co have "length b5 < 4"
            by (simp add: checked_decode_def ebind_def read_bytes_def split: if_splits)
          then have "unpack_le 4 (take 4 b5) = Inl StructError"
            by (simp add: unpack_le_short)
          then show ?thesis
            by (simp add: disassemble_def t v vd1 di vd2 do)
        qed
      qed
    qed
  qed
qed

lemma read_varint_error: "read_varint b = Inl e \<Longrightarrow> e = TruncatedInputError"
  by (auto simp: read_varint_def varlenDecode_def split: list.splits if_splits)

lemma checked_inputs_error: "checked_inputs n b = Inl e \<Longrightarrow> e = TruncatedInputError"
  by (induction n arbitrary: b)
    (auto simp: ebind_Inl read_bytes_Inl dest: read_varint_error)

lemma checked_outputs_error: "checked_outputs n b = Inl e \<Longrightarrow> e = TruncatedInputError"
  by (induction n arbitrary: b)
    (auto simp: ebind_Inl read_bytes_Inl dest: read_varint_error)

lemma checked_decode_error: "checked_decode B = Inl e \<Longrightarrow> e = TruncatedInputError"
  by (auto simp: checked_decode_def ebind_Inl read_bytes_Inl
      dest: read_varint_error checked_inputs_error checked_outputs_error)

text \<open>
  C6, as the code has it. A buffer is too short for a field it declares exactly when
  \<open>disassemble\<close> raises \<open>struct.error\<close> (an \<open>unpack\<close> on a slice cut short) or
  the truncation error of the variable-length integer reader: on every such buffer
  the decode fails, with or without \<open>retExtra\<close>, and never returns a result. The
  source has no \<open>TruncatedInputError\<close> of its own, and nothing is said here of the
  fields the decode has assigned before it fails.
\<close>

theorem truncated_buffer_fails:
  assumes "data t = Some B"
  shows "checked_decode B = Inl TruncatedInputError \<longleftrightarrow>
         fst (disassemble retExtra t) = Inl StructError \<or>
         fst (disassemble retExtra t) = Inl TruncatedInputError"
proof
  assume "checked_decode B = Inl TruncatedInputError"
  with assms show "fst (disassemble retExtra t) = Inl StructError \<or>
         fst (disassemble retExtra t) = Inl TruncatedInputError"
    by (rule decode_sim_fail)
next
  assume f: "fst (disassemble retExtra t) = Inl StructError \<or>
         fst (disassemble retExtra t) = Inl TruncatedInputError"
  show "checked_decode B = Inl TruncatedInputError"
  proof (cases "checked_decode B")
    case (Inl e)
    with checked_decode_error [OF Inl] show ?thesis
      by simp
  next
    case (Inr rest)
    from decode_sim_ok [OF assms Inr, of retExtra] f show ?thesis
      by auto
  qed
qed

theorem truncated_buffer_fails_witness:
  "data (example_txn [1, 0, 0, 0, 1, 0, 0, 0]) = Some [1, 0, 0, 0, 1, 0, 0, 0] \<and>
   checked_decode [1, 0, 0, 0, 1, 0, 0, 0] = Inl TruncatedInputError \<and>
   (fst (disassemble False (example_txn [1, 0, 0, 0, 1, 0, 0, 0])) = Inl StructError \<or>
    fst (disassemble False (example_txn [1, 0, 0, 0, 1, 0, 0, 0])) = Inl TruncatedInputError)"
proof -
  have d: "data (example_txn [1, 0, 0, 0, 1, 0, 0, 0]) = Some [1, 0, 0, 0, 1, 0, 0, 0]"
    by (simp add: example_txn_def)
  have c: "checked_decode [1, 0, 0, 0, 1, 0, 0, 0] = Inl TruncatedInputError"
    by (simp add: checked_decode_def ebind_def read_bytes_def read_varint_def varlenDecode_def)
  from d c truncated_buffer_fails [OF d, of False] show ?thesis
    by simp
qed

text \<open>
  The claim C6 as stated fails on the 17 bytes
  01 00 00 00 00 01 02 01 00 00 00 00 00 00 05 61 62: no input, one output of amount
  258 whose script length is 5 while only 2 bytes follow. The slice
  \<open>data[:pkScriptLen]\<close> is silently cut short, the decode assigns \<open>self.outputs\<close>
  with the 2-byte script, and only then fails, at the \<open>unpack\<close> of the locktime,
  with \<open>struct.error\<close> and not with a truncation error.
\<close>

theorem short_read_counterexample:
  "checked_decode [1, 0, 0, 0, 0, 1, 2, 1, 0, 0, 0, 0, 0, 0, 5, 97, 98] =
     Inl TruncatedInputError \<and>
   fst (disassemble False
          (example_txn [1, 0, 0, 0, 0, 1, 2, 1, 0, 0, 0, 0, 0, 0, 5, 97, 98])) =
     Inl StructError \<and>
   fst (disassemble False
          (example_txn [1, 0, 0, 0, 0, 1, 2, 1, 0, 0, 0, 0, 0, 0, 5, 97, 98])) \<noteq>
     Inl TruncatedInputError \<and>
   outputs (example_txn [1, 0, 0, 0, 0, 1, 2, 1, 0, 0, 0, 0, 0, 0, 5, 97, 98]) = None \<and>
   outputs (snd (disassemble False
                   (example_txn [1, 0, 0, 0, 0, 1, 2, 1, 0, 0, 0, 0, 0, 0, 5, 97, 98]))) =
     Some [(258, [97, 98])]"
  by (simp add: checked_decode_def ebind_def read_bytes_def read_varint_def
      example_txn_def disassemble_def unpack_le_def varlenDecode_def)

end
